theory Spec2Isabelle
  imports Main
begin

section \<open>License classification of dependency changes\<close>

text \<open>
  A shallow embedding of the license module (\<^verbatim>\<open>getInvalidLicenseChanges\<close>,
  \<^verbatim>\<open>groupChanges\<close>, \<^verbatim>\<open>setGHLicenses\<close>, \<^verbatim>\<open>parseGitHubURL\<close>,
  \<^verbatim>\<open>fetchGHLicense\<close>, \<^verbatim>\<open>truncatedDGLicense\<close>).

  A JavaScript string is a \<^typ>\<open>string\<close>; \<^verbatim>\<open>.length\<close> is \<^const>\<open>length\<close>
  (one \<^typ>\<open>char\<close> per UTF-16 code unit). \<^verbatim>\<open>null\<close> is \<^const>\<open>None\<close>. An array
  that the code only ever extends with \<^verbatim>\<open>push\<close> is a list extended at its end.
  Promises are awaited values: \<^verbatim>\<open>Promise.all\<close> over \<^verbatim>\<open>changes.map\<close> keeps the
  order of the array, so it is \<^const>\<open>map\<close>.
\<close>

subsection \<open>Data\<close>

datatype change_type = added | removed

text \<open>
  Modelled from the spec: the \<^verbatim>\<open>Change\<close> type of \<^verbatim>\<open>schemas.js\<close>, which is not
  among the source files. The spec (section 3) gives it the attributes below; the code
  reads \<^verbatim>\<open>change_type\<close>, \<^verbatim>\<open>license\<close> and \<^verbatim>\<open>source_repository_url\<close> only.
\<close>

record Change =
  name :: string
  version :: string
  manifest :: string
  change_type :: change_type
  license :: "string option"
  source_repository_url :: "string option"

text \<open>What an external call can throw; the code catches every one without looking at it.\<close>

datatype error = SpdxError | UrlError | RequestError

text \<open>The two properties of a \<^verbatim>\<open>URL\<close> object that the code reads.\<close>

record URL =
  host :: string
  pathname :: string

text \<open>
  \<^verbatim>\<open>response.data.license\<close> of the repository-license request: the code reads
  \<^verbatim>\<open>license?.spdx_id\<close>, where both the license and its id may be missing.
\<close>

datatype repo_license = RepoLicense (spdx_id: "string option")

text \<open>
  The functions the module imports and does not define, taken as parameters:
  \<^verbatim>\<open>spdxSatisfies\<close> of the package spdx-satisfies (it throws on a malformed
  expression), \<^verbatim>\<open>isSPDXValid\<close> of \<^verbatim>\<open>utils.js\<close>, the \<^verbatim>\<open>URL\<close> constructor (it
  throws on a malformed URL), and the request
  \<^verbatim>\<open>octokitClient().rest.licenses.getForRepo\<close> (it throws on any failure).
\<close>

record externals =
  spdxSatisfies :: "string \<Rightarrow> string \<Rightarrow> error + bool"
  isSPDXValid :: "string \<Rightarrow> bool"
  new_URL :: "string \<Rightarrow> error + URL"
  getForRepo :: "string \<Rightarrow> string \<Rightarrow> error + repo_license option"

text \<open>The policy argument \<^verbatim>\<open>{allow?: string[], deny?: string[]}\<close>.\<close>

record licenses =
  allow :: "string list option"
  deny :: "string list option"

subsection \<open>Remote resolution\<close>

text \<open>
  \<^verbatim>\<open>fetchGHLicense\<close>: the request inside \<^verbatim>\<open>try\<close>; \<^verbatim>\<open>catch\<close> returns null.
\<close>

definition fetchGHLicense :: "externals \<Rightarrow> string \<Rightarrow> string \<Rightarrow> string option" where
  "fetchGHLicense ext owner repo =
     (case getForRepo ext owner repo of
        Inl _ \<Rightarrow> None
      | Inr response_license \<Rightarrow>
          (case response_license of None \<Rightarrow> None | Some l \<Rightarrow> spdx_id l))"

text \<open>
  \<^verbatim>\<open>String.prototype.split\<close> with a one-character separator: the pieces between the
  separators, empty pieces included; the empty string gives one empty piece.
\<close>

fun split :: "char \<Rightarrow> string \<Rightarrow> string list" where
  "split sep [] = [[]]"
| "split sep (c # cs) =
     (if c = sep then [] # split sep cs
      else (case split sep cs of
              [] \<Rightarrow> [[c]]
            | w # ws \<Rightarrow> (c # w) # ws))"

record github_repo =
  owner :: string
  repo :: string

definition parseGitHubURL :: "externals \<Rightarrow> string \<Rightarrow> github_repo option" where
  "parseGitHubURL ext url =
     (case new_URL ext url of
        Inl _ \<Rightarrow> None
      | Inr parsed \<Rightarrow>
          if host parsed \<noteq> ''github.com'' then None
          else
            let components = split (CHR ''/'') (pathname parsed)
            in if length components < 3 then None
               else Some \<lparr>owner = components ! 1, repo = components ! 2\<rparr>)"

text \<open>
  The function that \<^verbatim>\<open>setGHLicenses\<close> maps over the batch. Beside the change it
  returns, the model records the requests it sent, as (owner, repo) pairs: at most one.
\<close>

definition setGHLicense :: "externals \<Rightarrow> Change \<Rightarrow> Change \<times> (string \<times> string) list" where
  "setGHLicense ext change =
     (case (license change, source_repository_url change) of
        (Some _, _) \<Rightarrow> (change, [])
      | (None, None) \<Rightarrow> (change, [])
      | (None, Some url) \<Rightarrow>
          (case parseGitHubURL ext url of
             None \<Rightarrow> (change, [])
           | Some githubUrl \<Rightarrow>
               (change\<lparr>license := fetchGHLicense ext (owner githubUrl) (repo githubUrl)\<rparr>,
                [(owner githubUrl, repo githubUrl)])))"

definition setGHLicenses :: "externals \<Rightarrow> Change list \<Rightarrow> Change list \<times> (string \<times> string) list" where
  "setGHLicenses ext changes =
     (map (\<lambda>change. fst (setGHLicense ext change)) changes,
      concat (map (\<lambda>change. snd (setGHLicense ext change)) changes))"

subsection \<open>Grouping\<close>

definition truncatedDGLicense :: "externals \<Rightarrow> string \<Rightarrow> bool" where
  "truncatedDGLicense ext l = (length l = 255 \<and> \<not> isSPDXValid ext l)"

text \<open>
  The state of \<^verbatim>\<open>groupChanges\<close>: the two arrays of \<^verbatim>\<open>result\<close>, the array
  \<^verbatim>\<open>ghChanges\<close>, and the requests sent so far.
\<close>

record grouping =
  licensed :: "Change list"
  unlicensed_group :: "Change list"
  ghChanges :: "Change list"
  requests :: "(string \<times> string) list"

text \<open>The body of the first loop of \<^verbatim>\<open>groupChanges\<close>.\<close>

definition sort_change :: "externals \<Rightarrow> grouping \<Rightarrow> Change \<Rightarrow> grouping" where
  "sort_change ext result change =
     (if change_type change = removed then result
      else
        (case license change of
           None \<Rightarrow>
             (case source_repository_url change of
                Some _ \<Rightarrow> result\<lparr>ghChanges := ghChanges result @ [change]\<rparr>
              | None \<Rightarrow> result\<lparr>unlicensed_group := unlicensed_group result @ [change]\<rparr>)
         | Some l \<Rightarrow>
             (case (truncatedDGLicense ext l, source_repository_url change) of
                (True, Some _) \<Rightarrow> result\<lparr>ghChanges := ghChanges result @ [change]\<rparr>
              | _ \<Rightarrow> result\<lparr>licensed := licensed result @ [change]\<rparr>)))"

text \<open>The body of the second loop, over the resolved batch.\<close>

definition file_resolved :: "grouping \<Rightarrow> Change \<Rightarrow> grouping" where
  "file_resolved result change =
     (case license change of
        None \<Rightarrow> result\<lparr>unlicensed_group := unlicensed_group result @ [change]\<rparr>
      | Some _ \<Rightarrow> result\<lparr>licensed := licensed result @ [change]\<rparr>)"

definition groupChanges :: "externals \<Rightarrow> Change list \<Rightarrow> grouping" where
  "groupChanges ext changes =
     (let result = foldl (sort_change ext)
                     \<lparr>licensed = [], unlicensed_group = [], ghChanges = [], requests = []\<rparr>
                     changes
      in if length (ghChanges result) > 0 then
           (let (ghLicenses, sent) = setGHLicenses ext (ghChanges result)
            in foldl file_resolved (result\<lparr>requests := sent\<rparr>) ghLicenses)
         else result)"

subsection \<open>Policy evaluation\<close>

text \<open>
  \<^verbatim>\<open>list.find(e => spdxSatisfies(license, e))\<close>: the first expression the license
  satisfies, null when there is none, an error when a check throws before one is found.
  The second component is the list of checks made, as (license, expression) pairs.
\<close>

fun find_satisfies ::
  "externals \<Rightarrow> string \<Rightarrow> string list \<Rightarrow> (error + string option) \<times> (string \<times> string) list" where
  "find_satisfies ext l [] = (Inr None, [])"
| "find_satisfies ext l (spdxExpression # rest) =
     (case spdxSatisfies ext l spdxExpression of
        Inl e \<Rightarrow> (Inl e, [(l, spdxExpression)])
      | Inr True \<Rightarrow> (Inr (Some spdxExpression), [(l, spdxExpression)])
      | Inr False \<Rightarrow>
          (case find_satisfies ext l rest of
             (r, checks) \<Rightarrow> (r, (l, spdxExpression) # checks)))"

text \<open>
  The body of the \<^verbatim>\<open>try\<close> block: the cache it leaves, or the error thrown, and the
  checks made.
\<close>

definition try_policy ::
  "externals \<Rightarrow> licenses \<Rightarrow> string \<Rightarrow> (string \<rightharpoonup> bool) \<Rightarrow>
     (error + (string \<rightharpoonup> bool)) \<times> (string \<times> string) list" where
  "try_policy ext pol l validityCache =
     (case allow pol of
        Some allowed \<Rightarrow>
          (case find_satisfies ext l allowed of
             (Inl e, checks) \<Rightarrow> (Inl e, checks)
           | (Inr found, checks) \<Rightarrow> (Inr (validityCache(l \<mapsto> found \<noteq> None)), checks))
      | None \<Rightarrow>
          (case deny pol of
             Some denied \<Rightarrow>
               (case find_satisfies ext l denied of
                  (Inl e, checks) \<Rightarrow> (Inl e, checks)
                | (Inr found, checks) \<Rightarrow> (Inr (validityCache(l \<mapsto> found = None)), checks))
           | None \<Rightarrow> (Inr validityCache, [])))"

text \<open>
  The state of the loop of \<^verbatim>\<open>getInvalidLicenseChanges\<close>: the three arrays of
  \<^verbatim>\<open>invalidLicenseChanges\<close>, the cache, and the checks made so far.
\<close>

record evaluation =
  unlicensed :: "Change list"
  unresolved :: "Change list"
  forbidden :: "Change list"
  validityCache :: "string \<rightharpoonup> bool"
  checks :: "(string \<times> string) list"

text \<open>The first \<^verbatim>\<open>if\<close> chain of the loop body, for a license that is not null.\<close>

definition evaluate_license :: "externals \<Rightarrow> licenses \<Rightarrow> evaluation \<Rightarrow> Change \<Rightarrow> string \<Rightarrow> evaluation" where
  "evaluate_license ext pol st change l =
     (if l = ''NOASSERTION'' then st\<lparr>unlicensed := unlicensed st @ [change]\<rparr>
      else if validityCache st l = None then
        (case try_policy ext pol l (validityCache st) of
           (Inr cache, made) \<Rightarrow> st\<lparr>validityCache := cache, checks := checks st @ made\<rparr>
         | (Inl _, made) \<Rightarrow>
             st\<lparr>unresolved := unresolved st @ [change], checks := checks st @ made\<rparr>)
      else st)"

text \<open>The loop body: a null license skips the change.\<close>

definition evaluate_change :: "externals \<Rightarrow> licenses \<Rightarrow> evaluation \<Rightarrow> Change \<Rightarrow> evaluation" where
  "evaluate_change ext pol st change =
     (case license change of
        None \<Rightarrow> st
      | Some l \<Rightarrow>
          (let st' = evaluate_license ext pol st change l
           in if validityCache st' l = Some False
              then st'\<lparr>forbidden := forbidden st' @ [change]\<rparr>
              else st'))"

definition getInvalidLicenseChanges :: "externals \<Rightarrow> Change list \<Rightarrow> licenses \<Rightarrow> evaluation" where
  "getInvalidLicenseChanges ext changes pol =
     (let groupedChanges = groupChanges ext changes
      in foldl (evaluate_change ext pol)
           \<lparr>unlicensed = unlicensed_group groupedChanges, unresolved = [], forbidden = [],
            validityCache = Map.empty, checks = []\<rparr>
           (licensed groupedChanges))"

section \<open>Notions used to state the properties\<close>

subsection \<open>The three tests of the first loop of \<^verbatim>\<open>groupChanges\<close>\<close>

text \<open>
  Which array the first loop appends a change to, read off its nested conditions: the
  licensed group, the batch to resolve, or the unlicensed group. A removed change
  passes none of the tests.
\<close>

definition licensed_directly :: "externals \<Rightarrow> Change \<Rightarrow> bool" where
  "licensed_directly ext c =
     (change_type c \<noteq> removed \<and>
      (case license c of None \<Rightarrow> False
                       | Some l \<Rightarrow> \<not> (truncatedDGLicense ext l \<and> source_repository_url c \<noteq> None)))"

definition awaits_lookup :: "externals \<Rightarrow> Change \<Rightarrow> bool" where
  "awaits_lookup ext c =
     (change_type c \<noteq> removed \<and> source_repository_url c \<noteq> None \<and>
      (case license c of None \<Rightarrow> True | Some l \<Rightarrow> truncatedDGLicense ext l))"

definition unlicensed_directly :: "Change \<Rightarrow> bool" where
  "unlicensed_directly c =
     (change_type c \<noteq> removed \<and> license c = None \<and> source_repository_url c = None)"

text \<open>The changes that \<^const>\<open>setGHLicenses\<close> returns for the batch of a change list.\<close>

definition resolved_batch :: "externals \<Rightarrow> Change list \<Rightarrow> Change list" where
  "resolved_batch ext cs = fst (setGHLicenses ext (filter (awaits_lookup ext) cs))"

subsection \<open>What the \<^verbatim>\<open>try\<close> block decides for a license\<close>

text \<open>
  The \<^verbatim>\<open>try\<close> block started on the empty cache: the Boolean it stores for the
  license (none when neither list is configured), or the error it throws; and the checks
  it makes. Neither depends on the cache it is started on (lemma \<open>try_policy_eq\<close>).
\<close>

definition policy_verdict :: "externals \<Rightarrow> licenses \<Rightarrow> string \<Rightarrow> error + bool option" where
  "policy_verdict ext pol l =
     (case fst (try_policy ext pol l Map.empty) of
        Inl e \<Rightarrow> Inl e
      | Inr cache \<Rightarrow> Inr (cache l))"

definition policy_checks :: "externals \<Rightarrow> licenses \<Rightarrow> string \<Rightarrow> (string \<times> string) list" where
  "policy_checks ext pol l = snd (try_policy ext pol l Map.empty)"

text \<open>
  The loop in closed form. A licensed change is unresolved when the block throws for its
  license, forbidden when the block stores \<open>False\<close>; the cache holds the stored Boolean
  of every license met so far; the block ran once for a license with a stored Boolean,
  and once per change for a license it throws on.
\<close>

definition evaluation_throws :: "externals \<Rightarrow> licenses \<Rightarrow> Change \<Rightarrow> bool" where
  "evaluation_throws ext pol c =
     (case license c of
        None \<Rightarrow> False
      | Some l \<Rightarrow> l \<noteq> ''NOASSERTION'' \<and> isl (policy_verdict ext pol l))"

definition violates :: "externals \<Rightarrow> licenses \<Rightarrow> Change \<Rightarrow> bool" where
  "violates ext pol c =
     (case license c of
        None \<Rightarrow> False
      | Some l \<Rightarrow> l \<noteq> ''NOASSERTION'' \<and> policy_verdict ext pol l = Inr (Some False))"

definition cached :: "externals \<Rightarrow> licenses \<Rightarrow> Change list \<Rightarrow> string \<Rightarrow> bool option" where
  "cached ext pol xs l =
     (if l \<noteq> ''NOASSERTION'' \<and> Some l \<in> license ` set xs
      then (case policy_verdict ext pol l of Inl _ \<Rightarrow> None | Inr b \<Rightarrow> b)
      else None)"

definition attempts :: "externals \<Rightarrow> licenses \<Rightarrow> Change list \<Rightarrow> string \<Rightarrow> nat" where
  "attempts ext pol xs l =
     (if l = ''NOASSERTION'' then 0
      else if isl (policy_verdict ext pol l) then length (filter (\<lambda>c. license c = Some l) xs)
      else if Some l \<in> license ` set xs then 1 else 0)"

definition loop_inv :: "externals \<Rightarrow> licenses \<Rightarrow> Change list \<Rightarrow> Change list \<Rightarrow> evaluation \<Rightarrow> bool" where
  "loop_inv ext pol u0 xs st =
     (unlicensed st = u0 @ filter (\<lambda>c. license c = Some ''NOASSERTION'') xs \<and>
      unresolved st = filter (evaluation_throws ext pol) xs \<and>
      forbidden st = filter (violates ext pol) xs \<and>
      (\<forall>l. validityCache st l = cached ext pol xs l) \<and>
      (\<forall>l. filter (\<lambda>k. fst k = l) (checks st) =
             concat (replicate (attempts ext pol xs l) (policy_checks ext pol l))))"

section \<open>Sample inputs\<close>

text \<open>
  Stand-ins for the imported functions, and a few changes and policies, on which the
  properties below are evaluated. The sample validity test knows three license
  identifiers. The sample \<open>spdxSatisfies\<close> throws when the license or the expression
  is not one of them, as the matcher does on a string that does not parse, and is string
  equality otherwise. The sample request knows two repositories.
\<close>

definition sample_valid :: "string \<Rightarrow> bool" where
  "sample_valid l = (l = ''MIT'' \<or> l = ''GPL-3.0'' \<or> l = ''Apache-2.0'')"

definition sample_externals :: externals where
  "sample_externals =
     \<lparr>spdxSatisfies = (\<lambda>l e.
        if sample_valid l \<and> sample_valid e then Inr (l = e) else Inl SpdxError),
      isSPDXValid = sample_valid,
      new_URL = (\<lambda>url.
        if url = ''https://github.com/acme/widget''
        then Inr \<lparr>host = ''github.com'', pathname = ''/acme/widget''\<rparr>
        else if url = ''https://github.com/acme/gadget''
        then Inr \<lparr>host = ''github.com'', pathname = ''/acme/gadget''\<rparr>
        else if url = ''https://github.com/acme/nothing''
        then Inr \<lparr>host = ''github.com'', pathname = ''/acme/nothing''\<rparr>
        else if url = ''https://github.com/acme/''
        then Inr \<lparr>host = ''github.com'', pathname = ''/acme/''\<rparr>
        else if url = ''https://github.com/acme''
        then Inr \<lparr>host = ''github.com'', pathname = ''/acme''\<rparr>
        else if url = ''https://gitlab.com/acme/widget''
        then Inr \<lparr>host = ''gitlab.com'', pathname = ''/acme/widget''\<rparr>
        else Inl UrlError),
      getForRepo = (\<lambda>owner repo.
        if owner = ''acme'' \<and> repo = ''widget'' then Inr (Some (RepoLicense (Some ''Apache-2.0'')))
        else if owner = ''acme'' \<and> repo = ''gadget'' then Inr (Some (RepoLicense (Some ''NOASSERTION'')))
        else Inl RequestError)\<rparr>"

definition sample_change :: "string \<Rightarrow> change_type \<Rightarrow> string option \<Rightarrow> string option \<Rightarrow> Change" where
  "sample_change n t l url =
     \<lparr>name = n, version = ''1.0.0'', manifest = ''package.json'', change_type = t,
      license = l, source_repository_url = url\<rparr>"

text \<open>A license string of 255 characters that is not a valid SPDX expression.\<close>

definition truncated_license :: string where
  "truncated_license = replicate 255 (CHR ''A'')"

definition truncated_change :: Change where
  "truncated_change =
     sample_change ''widget'' added (Some truncated_license) (Some ''https://github.com/acme/widget'')"

definition sample_changes :: "Change list" where
  "sample_changes =
     [sample_change ''a'' added (Some ''MIT'') None,
      sample_change ''b'' added (Some ''GPL-3.0'') None,
      sample_change ''b2'' added (Some ''GPL-3.0'') None,
      sample_change ''m'' added (Some ''not a license'') None,
      sample_change ''m2'' added (Some ''not a license'') None,
      sample_change ''n'' added (Some ''NOASSERTION'') None]"



text \<open>A policy with both lists, and a policy with a deny list only.\<close>

definition allow_MIT :: licenses where
  "allow_MIT = \<lparr>allow = Some [''MIT''], deny = Some [''MIT'']\<rparr>"

definition deny_GPL :: licenses where
  "deny_GPL = \<lparr>allow = None, deny = Some [''GPL-3.0'']\<rparr>"

section \<open>The two loops of \<^verbatim>\<open>groupChanges\<close> in closed form\<close>

lemma sort_change_cases:
  "sort_change ext g c =
     (if licensed_directly ext c then g\<lparr>licensed := licensed g @ [c]\<rparr>
      else if awaits_lookup ext c then g\<lparr>ghChanges := ghChanges g @ [c]\<rparr>
      else if unlicensed_directly c then g\<lparr>unlicensed_group := unlicensed_group g @ [c]\<rparr>
      else g)"
  by (auto simp: sort_change_def licensed_directly_def awaits_lookup_def unlicensed_directly_def
           split: option.splits bool.splits)

lemma group_tests_exclusive:
  "licensed_directly ext c \<Longrightarrow> \<not> awaits_lookup ext c"
  "licensed_directly ext c \<Longrightarrow> \<not> unlicensed_directly c"
  "awaits_lookup ext c \<Longrightarrow> \<not> unlicensed_directly c"
  by (auto simp: licensed_directly_def awaits_lookup_def unlicensed_directly_def split: option.splits)

lemma first_loop:
  "foldl (sort_change ext) g cs =
     g\<lparr>licensed := licensed g @ filter (licensed_directly ext) cs,
       unlicensed_group := unlicensed_group g @ filter unlicensed_directly cs,
       ghChanges := ghChanges g @ filter (awaits_lookup ext) cs\<rparr>"
proof (induction cs arbitrary: g)
  case Nil
  show ?case by simp
next
  case (Cons c cs)
  have "foldl (sort_change ext) g (c # cs) = foldl (sort_change ext) (sort_change ext g c) cs"
    by simp
  also have "\<dots> = (sort_change ext g c)
       \<lparr>licensed := licensed (sort_change ext g c) @ filter (licensed_directly ext) cs,
        unlicensed_group := unlicensed_group (sort_change ext g c) @ filter unlicensed_directly cs,
        ghChanges := ghChanges (sort_change ext g c) @ filter (awaits_lookup ext) cs\<rparr>"
    by (rule Cons.IH)
  also have "\<dots> = g\<lparr>licensed := licensed g @ filter (licensed_directly ext) (c # cs),
       unlicensed_group := unlicensed_group g @ filter unlicensed_directly (c # cs),
       ghChanges := ghChanges g @ filter (awaits_lookup ext) (c # cs)\<rparr>"
    using group_tests_exclusive [of ext c] by (auto simp: sort_change_cases)
  finally show ?case .
qed

lemma second_loop:
  "foldl file_resolved g cs =
     g\<lparr>licensed := licensed g @ filter (\<lambda>c. license c \<noteq> None) cs,
       unlicensed_group := unlicensed_group g @ filter (\<lambda>c. license c = None) cs\<rparr>"
proof (induction cs arbitrary: g)
  case Nil
  show ?case by simp
next
  case (Cons c cs)
  have "foldl file_resolved g (c # cs) = foldl file_resolved (file_resolved g c) cs"
    by simp
  also have "\<dots> = (file_resolved g c)
       \<lparr>licensed := licensed (file_resolved g c) @ filter (\<lambda>c. license c \<noteq> None) cs,
        unlicensed_group := unlicensed_group (file_resolved g c) @ filter (\<lambda>c. license c = None) cs\<rparr>"
    by (rule Cons.IH)
  also have "\<dots> = g\<lparr>licensed := licensed g @ filter (\<lambda>c. license c \<noteq> None) (c # cs),
       unlicensed_group := unlicensed_group g @ filter (\<lambda>c. license c = None) (c # cs)\<rparr>"
    by (cases "license c") (simp_all add: file_resolved_def)
  finally show ?case .
qed

lemma groupChanges_licensed:
  "licensed (groupChanges ext cs) =
     filter (licensed_directly ext) cs @ filter (\<lambda>c. license c \<noteq> None) (resolved_batch ext cs)"
  by (simp add: groupChanges_def first_loop second_loop resolved_batch_def Let_def setGHLicenses_def split: prod.splits)

lemma groupChanges_unlicensed:
  "unlicensed_group (groupChanges ext cs) =
     filter unlicensed_directly cs @ filter (\<lambda>c. license c = None) (resolved_batch ext cs)"
  by (simp add: groupChanges_def first_loop second_loop resolved_batch_def Let_def setGHLicenses_def split: prod.splits)

lemma groupChanges_requests:
  "requests (groupChanges ext cs) = snd (setGHLicenses ext (filter (awaits_lookup ext) cs))"
  by (simp add: groupChanges_def first_loop second_loop Let_def setGHLicenses_def split: prod.splits)

lemma setGHLicense_licensed:
  "license c = Some l \<Longrightarrow> setGHLicense ext c = (c, [])"
  by (simp add: setGHLicense_def)

lemma setGHLicense_change_type:
  "change_type (fst (setGHLicense ext c)) = change_type c"
  by (simp add: setGHLicense_def split: option.splits)

lemma resolved_batch_set:
  "set (resolved_batch ext cs) = (\<lambda>c. fst (setGHLicense ext c)) ` {c \<in> set cs. awaits_lookup ext c}"
  by (simp add: resolved_batch_def setGHLicenses_def)

lemma grouped_not_removed:
  assumes "c \<in> set (licensed (groupChanges ext cs)) \<union> set (unlicensed_group (groupChanges ext cs))"
  shows "change_type c \<noteq> removed"
  using assms
  by (auto simp: groupChanges_licensed groupChanges_unlicensed resolved_batch_set
                 licensed_directly_def unlicensed_directly_def awaits_lookup_def
                 setGHLicense_change_type)

lemma licensed_has_license:
  "c \<in> set (licensed (groupChanges ext cs)) \<Longrightarrow> \<exists>l. license c = Some l"
  by (auto simp: groupChanges_licensed licensed_directly_def split: option.splits)

lemma unlicensed_group_null:
  "c \<in> set (unlicensed_group (groupChanges ext cs)) \<Longrightarrow> license c = None"
  by (auto simp: groupChanges_unlicensed unlicensed_directly_def)


section \<open>The \<^verbatim>\<open>try\<close> block\<close>

lemma try_policy_eq:
  "try_policy ext pol l cache =
     ((case policy_verdict ext pol l of
         Inl e \<Rightarrow> Inl e
       | Inr None \<Rightarrow> Inr cache
       | Inr (Some b) \<Rightarrow> Inr (cache(l \<mapsto> b))),
      policy_checks ext pol l)"
  by (simp add: try_policy_def policy_verdict_def policy_checks_def
           split: option.splits prod.splits sum.splits)

lemma find_satisfies_checks: "snd (find_satisfies ext l es) = map (Pair l) (take (length (snd (find_satisfies ext l es))) es)"
  by (induction es) (auto split: sum.splits bool.splits prod.splits)

lemma find_satisfies_fst: "k \<in> set (snd (find_satisfies ext l es)) \<Longrightarrow> fst k = l"
  by (induction es) (auto split: sum.splits bool.splits prod.splits)

lemma find_satisfies_found:
  "fst (find_satisfies ext l es) = Inr found \<Longrightarrow>
     (found = None) = (\<forall>e \<in> set es. spdxSatisfies ext l e \<noteq> Inr True)"
  by (induction es arbitrary: found) (auto split: sum.splits bool.splits prod.splits)

lemma find_satisfies_throwing_check:
  "(l, e) \<in> set (snd (find_satisfies ext l es)) \<Longrightarrow> spdxSatisfies ext l e = Inl err \<Longrightarrow>
     isl (fst (find_satisfies ext l es))"
  by (induction es) (auto split: sum.splits bool.splits prod.splits)

lemma policy_checks_eq:
  "policy_checks ext pol l =
     (case allow pol of
        Some allowed \<Rightarrow> snd (find_satisfies ext l allowed)
      | None \<Rightarrow> (case deny pol of Some denied \<Rightarrow> snd (find_satisfies ext l denied) | None \<Rightarrow> []))"
  by (simp add: policy_checks_def try_policy_def split: option.splits prod.splits sum.splits)

lemma policy_verdict_eq:
  "policy_verdict ext pol l =
     (case allow pol of
        Some allowed \<Rightarrow>
          (case fst (find_satisfies ext l allowed) of
             Inl e \<Rightarrow> Inl e | Inr found \<Rightarrow> Inr (Some (found \<noteq> None)))
      | None \<Rightarrow>
          (case deny pol of
             Some denied \<Rightarrow>
               (case fst (find_satisfies ext l denied) of
                  Inl e \<Rightarrow> Inl e | Inr found \<Rightarrow> Inr (Some (found = None)))
           | None \<Rightarrow> Inr None))"
  by (simp add: policy_verdict_def try_policy_def split: option.splits prod.splits sum.splits)

lemma policy_checks_fst: "k \<in> set (policy_checks ext pol l) \<Longrightarrow> fst k = l"
  by (auto simp: policy_checks_eq dest: find_satisfies_fst split: option.splits)

lemma policy_checks_none: "policy_verdict ext pol l = Inr None \<Longrightarrow> policy_checks ext pol l = []"
  by (auto simp: policy_checks_def policy_verdict_def try_policy_def
           split: option.splits prod.splits sum.splits)

lemma filter_policy_checks:
  "filter (\<lambda>k. fst k = l') (policy_checks ext pol l) = (if l' = l then policy_checks ext pol l else [])"
  using policy_checks_fst [of _ ext pol l] by (auto simp: filter_empty_conv intro: filter_True)

lemma throwing_check_verdict:
  assumes made: "(l, e) \<in> set (policy_checks ext pol l)"
    and thrown: "spdxSatisfies ext l e = Inl err"
  shows "isl (policy_verdict ext pol l)"
proof (cases "allow pol")
  case (Some allowed)
  then show ?thesis
    using find_satisfies_throwing_check [of l e ext allowed err] made thrown
    by (auto simp: policy_checks_eq policy_verdict_eq split: sum.splits)
next
  case None
  note no_allow = None
  show ?thesis
  proof (cases "deny pol")
    case None
    with no_allow made show ?thesis by (simp add: policy_checks_eq)
  next
    case (Some denied)
    with no_allow show ?thesis
      using find_satisfies_throwing_check [of l e ext denied err] made thrown
      by (auto simp: policy_checks_eq policy_verdict_eq split: sum.splits)
  qed
qed

section \<open>The evaluation loop in closed form\<close>

lemma cached_snoc:
  "cached ext pol (xs @ [c]) l' =
     (case license c of
        None \<Rightarrow> cached ext pol xs l'
      | Some l \<Rightarrow>
          if l' = l \<and> l \<noteq> ''NOASSERTION''
          then (case policy_verdict ext pol l of Inl _ \<Rightarrow> None | Inr b \<Rightarrow> b)
          else cached ext pol xs l')"
  by (auto simp: cached_def split: option.splits sum.splits)

lemma cached_Some:
  "cached ext pol xs l = Some b \<Longrightarrow>
     l \<noteq> ''NOASSERTION'' \<and> Some l \<in> license ` set xs \<and> policy_verdict ext pol l = Inr (Some b)"
  by (auto simp: cached_def split: if_splits sum.splits)

lemma cached_None:
  "cached ext pol xs l = None \<Longrightarrow> policy_verdict ext pol l = Inr (Some b) \<Longrightarrow>
     l = ''NOASSERTION'' \<or> Some l \<notin> license ` set xs"
  by (auto simp: cached_def split: if_splits sum.splits)

lemma attempts_snoc:
  "attempts ext pol (xs @ [c]) l' =
     (case license c of
        None \<Rightarrow> attempts ext pol xs l'
      | Some l \<Rightarrow>
          if l' = l \<and> l \<noteq> ''NOASSERTION''
          then (if isl (policy_verdict ext pol l) then Suc (attempts ext pol xs l) else 1)
          else attempts ext pol xs l')"
  by (auto simp: attempts_def split: option.splits)

lemma concat_replicate_commute: "concat (replicate n ys) @ ys = ys @ concat (replicate n ys)"
  by (induction n) simp_all

lemma evaluate_change_null:
  "license c = None \<Longrightarrow> evaluate_change ext pol st c = st"
  by (simp add: evaluate_change_def)

lemma evaluate_change_noassertion:
  "license c = Some ''NOASSERTION'' \<Longrightarrow> validityCache st ''NOASSERTION'' = None \<Longrightarrow>
   evaluate_change ext pol st c = st\<lparr>unlicensed := unlicensed st @ [c]\<rparr>"
  by (simp add: evaluate_change_def evaluate_license_def)

lemma evaluate_change_hit:
  "license c = Some l \<Longrightarrow> l \<noteq> ''NOASSERTION'' \<Longrightarrow> validityCache st l = Some b \<Longrightarrow>
   evaluate_change ext pol st c = (if b then st else st\<lparr>forbidden := forbidden st @ [c]\<rparr>)"
  by (simp add: evaluate_change_def evaluate_license_def)

lemma evaluate_change_throw:
  "license c = Some l \<Longrightarrow> l \<noteq> ''NOASSERTION'' \<Longrightarrow> validityCache st l = None \<Longrightarrow>
   policy_verdict ext pol l = Inl e \<Longrightarrow>
   evaluate_change ext pol st c =
     st\<lparr>unresolved := unresolved st @ [c], checks := checks st @ policy_checks ext pol l\<rparr>"
  by (simp add: evaluate_change_def evaluate_license_def try_policy_eq)

lemma evaluate_change_no_policy:
  "license c = Some l \<Longrightarrow> l \<noteq> ''NOASSERTION'' \<Longrightarrow> validityCache st l = None \<Longrightarrow>
   policy_verdict ext pol l = Inr None \<Longrightarrow>
   evaluate_change ext pol st c = st"
  by (simp add: evaluate_change_def evaluate_license_def try_policy_eq policy_checks_none)

lemma evaluate_change_miss:
  "license c = Some l \<Longrightarrow> l \<noteq> ''NOASSERTION'' \<Longrightarrow> validityCache st l = None \<Longrightarrow>
   policy_verdict ext pol l = Inr (Some b) \<Longrightarrow>
   evaluate_change ext pol st c =
     (if b then st\<lparr>validityCache := (validityCache st)(l \<mapsto> b),
                  checks := checks st @ policy_checks ext pol l\<rparr>
      else st\<lparr>validityCache := (validityCache st)(l \<mapsto> b),
              checks := checks st @ policy_checks ext pol l,
              forbidden := forbidden st @ [c]\<rparr>)"
  by (simp add: evaluate_change_def evaluate_license_def try_policy_eq)

lemma loop_inv_step:
  assumes inv: "loop_inv ext pol u0 xs st"
  shows "loop_inv ext pol u0 (xs @ [c]) (evaluate_change ext pol st c)"
proof (cases "license c")
  case None
  then show ?thesis
    using inv
    by (simp add: evaluate_change_null loop_inv_def cached_snoc attempts_snoc
                  evaluation_throws_def violates_def)
next
  case (Some l)
  note lic = Some
  have cache: "validityCache st l' = cached ext pol xs l'" for l'
    using inv by (simp add: loop_inv_def)
  show ?thesis
  proof (cases "l = ''NOASSERTION''")
    case True
    have "validityCache st ''NOASSERTION'' = None"
      by (simp add: cache cached_def)
    then show ?thesis
      using inv lic True
      by (simp add: evaluate_change_noassertion loop_inv_def cached_snoc attempts_snoc
                    evaluation_throws_def violates_def)
  next
    case False
    show ?thesis
    proof (cases "validityCache st l")
      case (Some b)
      then have "cached ext pol xs l = Some b" by (simp add: cache)
      from cached_Some [OF this]
      have v: "policy_verdict ext pol l = Inr (Some b)" and seen: "Some l \<in> license ` set xs"
        by simp_all
      have att: "attempts ext pol xs l = 1"
        using v seen False by (simp add: attempts_def)
      show ?thesis
        using inv lic False Some v att
        by (simp add: evaluate_change_hit loop_inv_def cached_snoc attempts_snoc
                      evaluation_throws_def violates_def)
    next
      case None
      then have cn: "cached ext pol xs l = None" by (simp add: cache)
      show ?thesis
      proof (cases "policy_verdict ext pol l")
        case (Inl e)
        show ?thesis
          using inv lic False None Inl
          by (simp add: evaluate_change_throw loop_inv_def cached_snoc attempts_snoc
                        evaluation_throws_def violates_def filter_policy_checks
                        concat_replicate_commute)
      next
        case (Inr r)
        show ?thesis
        proof (cases r)
          case None
          with Inr have v: "policy_verdict ext pol l = Inr None" by simp
          show ?thesis
            using inv lic False \<open>validityCache st l = None\<close> v
            by (simp add: evaluate_change_no_policy loop_inv_def cached_snoc attempts_snoc
                          evaluation_throws_def violates_def policy_checks_none)
        next
          case (Some b)
          with Inr have v: "policy_verdict ext pol l = Inr (Some b)" by simp
          from cached_None [OF cn v] False have unseen: "Some l \<notin> license ` set xs"
            by simp
          have att: "attempts ext pol xs l = 0"
            using v unseen False by (simp add: attempts_def)
          show ?thesis
            using inv lic False \<open>validityCache st l = None\<close> v att
            by (simp add: evaluate_change_miss loop_inv_def cached_snoc attempts_snoc
                          evaluation_throws_def violates_def filter_policy_checks)
        qed
      qed
    qed
  qed
qed

lemma loop_inv_init:
  "loop_inv ext pol u0 []
     \<lparr>unlicensed = u0, unresolved = [], forbidden = [], validityCache = Map.empty, checks = []\<rparr>"
  by (simp add: loop_inv_def cached_def attempts_def)

lemma loop_inv_foldl:
  "loop_inv ext pol u0 xs
     (foldl (evaluate_change ext pol)
        \<lparr>unlicensed = u0, unresolved = [], forbidden = [], validityCache = Map.empty, checks = []\<rparr>
        xs)"
proof (induction xs rule: rev_induct)
  case Nil
  show ?case using loop_inv_init by simp
next
  case (snoc c xs)
  from loop_inv_step [OF snoc.IH, of c] show ?case by simp
qed

lemma run_inv:
  "loop_inv ext pol (unlicensed_group (groupChanges ext changes))
     (licensed (groupChanges ext changes)) (getInvalidLicenseChanges ext changes pol)"
  unfolding getInvalidLicenseChanges_def Let_def by (rule loop_inv_foldl)

lemma run_unlicensed:
  "unlicensed (getInvalidLicenseChanges ext changes pol) =
     unlicensed_group (groupChanges ext changes) @
     filter (\<lambda>c. license c = Some ''NOASSERTION'') (licensed (groupChanges ext changes))"
  using run_inv [of ext pol changes] by (simp add: loop_inv_def)

lemma run_unresolved:
  "unresolved (getInvalidLicenseChanges ext changes pol) =
     filter (evaluation_throws ext pol) (licensed (groupChanges ext changes))"
  using run_inv [of ext pol changes] by (simp add: loop_inv_def)

lemma run_forbidden:
  "forbidden (getInvalidLicenseChanges ext changes pol) =
     filter (violates ext pol) (licensed (groupChanges ext changes))"
  using run_inv [of ext pol changes] by (simp add: loop_inv_def)

lemma run_cache:
  "validityCache (getInvalidLicenseChanges ext changes pol) l =
     cached ext pol (licensed (groupChanges ext changes)) l"
  using run_inv [of ext pol changes] by (simp add: loop_inv_def)

lemma run_checks:
  "filter (\<lambda>k. fst k = l) (checks (getInvalidLicenseChanges ext changes pol)) =
     concat (replicate (attempts ext pol (licensed (groupChanges ext changes)) l)
               (policy_checks ext pol l))"
  using run_inv [of ext pol changes] by (simp add: loop_inv_def)

lemma check_made:
  assumes "(l, e) \<in> set (checks (getInvalidLicenseChanges ext changes pol))"
  shows "l \<noteq> ''NOASSERTION'' \<and> (l, e) \<in> set (policy_checks ext pol l) \<and>
         0 < attempts ext pol (licensed (groupChanges ext changes)) l"
proof -
  let ?r = "getInvalidLicenseChanges ext changes pol"
  from assms have "(l, e) \<in> set (filter (\<lambda>k. fst k = l) (checks ?r))" by simp
  then have *: "(l, e) \<in> set (concat (replicate (attempts ext pol (licensed (groupChanges ext changes)) l)
               (policy_checks ext pol l)))"
    by (simp only: run_checks)
  then have "(l, e) \<in> set (policy_checks ext pol l)"
    by (auto simp: set_replicate_conv_if split: if_splits)
  moreover from * have "0 < attempts ext pol (licensed (groupChanges ext changes)) l"
    by (cases "attempts ext pol (licensed (groupChanges ext changes)) l") auto
  moreover from this have "l \<noteq> ''NOASSERTION''"
    by (auto simp: attempts_def)
  ultimately show ?thesis by simp
qed

section \<open>Further facts about resolution and evaluation\<close>

lemma setGHLicense_cases:
  "fst (setGHLicense ext c) = c \<or>
   (\<exists>url g. license c = None \<and> source_repository_url c = Some url \<and>
      parseGitHubURL ext url = Some g \<and>
      setGHLicense ext c =
        (c\<lparr>license := fetchGHLicense ext (owner g) (repo g)\<rparr>, [(owner g, repo g)]))"
  by (auto simp: setGHLicense_def split: option.splits)

lemma setGHLicense_frame:
  "name (fst (setGHLicense ext c)) = name c"
  "version (fst (setGHLicense ext c)) = version c"
  "manifest (fst (setGHLicense ext c)) = manifest c"
  "source_repository_url (fst (setGHLicense ext c)) = source_repository_url c"
  by (simp_all add: setGHLicense_def split: option.splits)



lemma resolved_in_batch:
  "c \<in> set changes \<Longrightarrow> awaits_lookup ext c \<Longrightarrow>
     fst (setGHLicense ext c) \<in> set (resolved_batch ext changes)"
  by (auto simp: resolved_batch_set)


lemma now_licensed:
  assumes "c \<in> set changes" "change_type c \<noteq> removed" "license c = None"
    and "source_repository_url c = Some url" "license (fst (setGHLicense ext c)) = Some l"
  shows "fst (setGHLicense ext c) \<in> set (licensed (groupChanges ext changes))"
proof -
  have "awaits_lookup ext c"
    using assms by (simp add: awaits_lookup_def)
  from resolved_in_batch [OF assms(1) this] assms(5) show ?thesis
    by (simp add: groupChanges_licensed)
qed

lemma noassertion_not_truncated: "\<not> truncatedDGLicense ext ''NOASSERTION''"
  by (simp add: truncatedDGLicense_def)

lemma truncated_change_keeps_license:
  assumes "c \<in> set changes" "change_type c \<noteq> removed" "license c = Some l"
    and "truncatedDGLicense ext l" "source_repository_url c = Some url"
  shows "awaits_lookup ext c \<and> setGHLicense ext c = (c, []) \<and>
         c \<in> set (licensed (groupChanges ext changes))"
proof -
  have a: "awaits_lookup ext c"
    using assms by (simp add: awaits_lookup_def)
  have s: "setGHLicense ext c = (c, [])"
    using assms(3) by (rule setGHLicense_licensed)
  from resolved_in_batch [OF assms(1) a] s assms(3)
  have "c \<in> set (licensed (groupChanges ext changes))"
    by (simp add: groupChanges_licensed)
  with a s show ?thesis by simp
qed

lemma buckets_from_groups:
  "set (forbidden (getInvalidLicenseChanges ext changes pol)) \<union>
   set (unresolved (getInvalidLicenseChanges ext changes pol)) \<union>
   set (unlicensed (getInvalidLicenseChanges ext changes pol))
   \<subseteq> set (licensed (groupChanges ext changes)) \<union> set (unlicensed_group (groupChanges ext changes))"
  by (auto simp: run_forbidden run_unresolved run_unlicensed)

lemma throws_not_violates: "evaluation_throws ext pol c \<Longrightarrow> \<not> violates ext pol c"
  by (auto simp: evaluation_throws_def violates_def split: option.splits)

lemma no_check_of_noassertion:
  "(''NOASSERTION'', e) \<notin> set (checks (getInvalidLicenseChanges ext changes pol))"
  using check_made [of "''NOASSERTION''" e ext changes pol] by blast

lemma noassertion_buckets:
  assumes "c \<in> set (licensed (groupChanges ext changes))" "license c = Some ''NOASSERTION''"
  shows "c \<in> set (unlicensed (getInvalidLicenseChanges ext changes pol)) \<and>
         c \<notin> set (forbidden (getInvalidLicenseChanges ext changes pol)) \<and>
         c \<notin> set (unresolved (getInvalidLicenseChanges ext changes pol))"
  using assms by (simp add: run_unlicensed run_forbidden run_unresolved violates_def evaluation_throws_def)

lemma forbidden_iff:
  assumes "c \<in> set (licensed (groupChanges ext changes))" "license c = Some l"
    and "l \<noteq> ''NOASSERTION''"
  shows "c \<in> set (forbidden (getInvalidLicenseChanges ext changes pol)) \<longleftrightarrow>
         policy_verdict ext pol l = Inr (Some False)"
  using assms by (simp add: run_forbidden violates_def)

lemma unresolved_iff:
  assumes "c \<in> set (licensed (groupChanges ext changes))" "license c = Some l"
    and "l \<noteq> ''NOASSERTION''"
  shows "c \<in> set (unresolved (getInvalidLicenseChanges ext changes pol)) \<longleftrightarrow>
         isl (policy_verdict ext pol l)"
  using assms by (simp add: run_unresolved evaluation_throws_def)

lemma attempts_once:
  "\<not> isl (policy_verdict ext pol l) \<Longrightarrow> attempts ext pol xs l \<le> 1"
  by (simp add: attempts_def)

lemma attempts_thrown:
  "isl (policy_verdict ext pol l) \<Longrightarrow> l \<noteq> ''NOASSERTION'' \<Longrightarrow>
     attempts ext pol xs l = length (filter (\<lambda>c. license c = Some l) xs)"
  by (simp add: attempts_def)

lemma policy_verdict_isl:
  "isl (policy_verdict ext pol l) = isl (fst (try_policy ext pol l cache))"
  by (simp add: try_policy_eq split: sum.splits option.splits)

lemma thrown_check_in_run:
  assumes "(l, e) \<in> set (checks (getInvalidLicenseChanges ext changes pol))"
    and "spdxSatisfies ext l e = Inl err"
  shows "l \<noteq> ''NOASSERTION'' \<and> isl (policy_verdict ext pol l)"
  using check_made [OF assms(1)] throwing_check_verdict [of l e ext pol err] assms(2) by blast

lemma find_satisfies_thrown:
  "fst (find_satisfies ext l es) = Inl err \<Longrightarrow>
     \<exists>e. (l, e) \<in> set (snd (find_satisfies ext l es)) \<and> spdxSatisfies ext l e = Inl err"
  by (induction es) (auto split: sum.splits bool.splits prod.splits)

lemma policy_thrown:
  assumes "isl (policy_verdict ext pol l)"
  shows "\<exists>e err. (l, e) \<in> set (policy_checks ext pol l) \<and> spdxSatisfies ext l e = Inl err"
proof (cases "allow pol")
  case (Some allowed)
  with assms obtain err where "fst (find_satisfies ext l allowed) = Inl err"
    by (auto simp: policy_verdict_eq split: sum.splits)
  from find_satisfies_thrown [OF this] Some show ?thesis
    by (auto simp: policy_checks_eq)
next
  case None
  note no_allow = None
  show ?thesis
  proof (cases "deny pol")
    case None
    with no_allow assms show ?thesis by (simp add: policy_verdict_eq)
  next
    case (Some denied)
    with no_allow assms obtain err where "fst (find_satisfies ext l denied) = Inl err"
      by (auto simp: policy_verdict_eq split: sum.splits)
    from find_satisfies_thrown [OF this] Some no_allow show ?thesis
      by (auto simp: policy_checks_eq)
  qed
qed

lemma thrown_policy_is_checked:
  assumes "c \<in> set (licensed (groupChanges ext changes))" "license c = Some l"
    and "l \<noteq> ''NOASSERTION''" "fst (try_policy ext pol l cache) = Inl err"
  shows "\<exists>e err'. (l, e) \<in> set (checks (getInvalidLicenseChanges ext changes pol)) \<and>
           spdxSatisfies ext l e = Inl err'"
proof -
  let ?r = "getInvalidLicenseChanges ext changes pol"
  let ?n = "length (filter (\<lambda>c. license c = Some l) (licensed (groupChanges ext changes)))"
  have t: "isl (policy_verdict ext pol l)"
    using assms(4) by (simp add: policy_verdict_isl [of ext pol l cache])
  from policy_thrown [OF t] obtain e err'
    where e: "(l, e) \<in> set (policy_checks ext pol l)" "spdxSatisfies ext l e = Inl err'"
    by blast
  have "0 < ?n"
    using assms(1,2) by (auto simp: filter_empty_conv)
  then obtain k where k: "?n = Suc k"
    by (cases ?n) auto
  have "filter (\<lambda>k. fst k = l) (checks ?r) = concat (replicate ?n (policy_checks ext pol l))"
    by (simp add: run_checks attempts_thrown [OF t assms(3)])
  then have "(l, e) \<in> set (filter (\<lambda>k. fst k = l) (checks ?r))"
    using e(1) by (simp add: k)
  with e(2) show ?thesis
    by auto
qed

section \<open>The sample inputs evaluated\<close>

lemma truncated_license_facts:
  "length truncated_license = 255"
  "truncated_license \<noteq> ''MIT''"
  "truncated_license \<noteq> ''GPL-3.0''"
  "truncated_license \<noteq> ''Apache-2.0''"
  "truncated_license \<noteq> ''NOASSERTION''"
  "''Apache-2.0'' \<noteq> truncated_license"
  "truncated_license \<noteq> ''not a license''"
  by (auto simp: truncated_license_def dest: arg_cong [where f = length])

lemma sample_parse:
  "parseGitHubURL sample_externals ''https://github.com/acme/widget'' = Some \<lparr>owner = ''acme'', repo = ''widget''\<rparr>"
  "parseGitHubURL sample_externals ''https://github.com/acme/gadget'' = Some \<lparr>owner = ''acme'', repo = ''gadget''\<rparr>"
  "parseGitHubURL sample_externals ''https://gitlab.com/acme/widget'' = None"
  "parseGitHubURL sample_externals ''https://github.com/acme'' = None"
  "parseGitHubURL sample_externals ''nonsense'' = None"
  "parseGitHubURL sample_externals ''https://github.com/acme/nothing'' =
     Some \<lparr>owner = ''acme'', repo = ''nothing''\<rparr>"
  by (simp_all add: parseGitHubURL_def sample_externals_def)

lemma sample_fetch:
  "fetchGHLicense sample_externals ''acme'' ''widget'' = Some ''Apache-2.0''"
  "fetchGHLicense sample_externals ''acme'' ''gadget'' = Some ''NOASSERTION''"
  "fetchGHLicense sample_externals ''acme'' ''nothing'' = None"
  by (simp_all add: fetchGHLicense_def sample_externals_def)

lemma truncated_sample: "truncatedDGLicense sample_externals truncated_license"
  by (simp add: truncatedDGLicense_def sample_externals_def sample_valid_def
                truncated_license_facts)

lemmas run_defs =
  getInvalidLicenseChanges_def groupChanges_def sort_change_def file_resolved_def
  setGHLicenses_def setGHLicense_def evaluate_change_def evaluate_license_def try_policy_def
  sample_change_def

lemma sample_grouping:
  "groupChanges sample_externals sample_changes =
     \<lparr>licensed = sample_changes, unlicensed_group = [], ghChanges = [], requests = []\<rparr>"
  by (simp add: sample_changes_def groupChanges_def sort_change_def sample_change_def
                truncatedDGLicense_def)

lemma sample_satisfies:
  "spdxSatisfies sample_externals ''MIT'' ''MIT'' = Inr True"
  "spdxSatisfies sample_externals ''GPL-3.0'' ''MIT'' = Inr False"
  "spdxSatisfies sample_externals ''GPL-3.0'' ''GPL-3.0'' = Inr True"
  "spdxSatisfies sample_externals ''MIT'' ''GPL-3.0'' = Inr False"
  "spdxSatisfies sample_externals ''not a license'' ''MIT'' = Inl SpdxError"
  "spdxSatisfies sample_externals ''not a license'' ''GPL-3.0'' = Inl SpdxError"
  "spdxSatisfies sample_externals truncated_license ''Apache-2.0'' = Inl SpdxError"
  by (simp_all add: sample_externals_def sample_valid_def truncated_license_facts)

lemma sample_run_allow:
  "getInvalidLicenseChanges sample_externals sample_changes allow_MIT =
     \<lparr>unlicensed = [sample_change ''n'' added (Some ''NOASSERTION'') None],
      unresolved = [sample_change ''m'' added (Some ''not a license'') None,
                    sample_change ''m2'' added (Some ''not a license'') None],
      forbidden = [sample_change ''b'' added (Some ''GPL-3.0'') None,
                   sample_change ''b2'' added (Some ''GPL-3.0'') None],
      validityCache = [''MIT'' \<mapsto> True, ''GPL-3.0'' \<mapsto> False],
      checks = [(''MIT'', ''MIT''), (''GPL-3.0'', ''MIT''),
                (''not a license'', ''MIT''), (''not a license'', ''MIT'')]\<rparr>"
  unfolding getInvalidLicenseChanges_def sample_grouping
  by (simp add: sample_changes_def evaluate_change_def evaluate_license_def try_policy_def
                sample_satisfies sample_change_def allow_MIT_def)

lemma sample_run_deny:
  "getInvalidLicenseChanges sample_externals sample_changes deny_GPL =
     \<lparr>unlicensed = [sample_change ''n'' added (Some ''NOASSERTION'') None],
      unresolved = [sample_change ''m'' added (Some ''not a license'') None,
                    sample_change ''m2'' added (Some ''not a license'') None],
      forbidden = [sample_change ''b'' added (Some ''GPL-3.0'') None,
                   sample_change ''b2'' added (Some ''GPL-3.0'') None],
      validityCache = [''MIT'' \<mapsto> True, ''GPL-3.0'' \<mapsto> False],
      checks = [(''MIT'', ''GPL-3.0''), (''GPL-3.0'', ''GPL-3.0''),
                (''not a license'', ''GPL-3.0''), (''not a license'', ''GPL-3.0'')]\<rparr>"
  unfolding getInvalidLicenseChanges_def sample_grouping
  by (simp add: sample_changes_def evaluate_change_def evaluate_license_def try_policy_def
                sample_satisfies sample_change_def deny_GPL_def)

section \<open>The properties\<close>

text \<open>
  Throughout, \<open>getInvalidLicenseChanges ext changes pol\<close> is the state in which the
  function returns: its fields \<open>forbidden\<close>, \<open>unresolved\<close> and \<open>unlicensed\<close> are the
  three arrays of the returned object, \<open>validityCache\<close> is the cache at that moment, and
  \<open>checks\<close> lists the calls of \<open>spdxSatisfies\<close> made, in order. The model is a total
  function with no error result: the only calls that can throw are made inside the two
  \<^verbatim>\<open>try\<close> blocks and the \<^verbatim>\<open>try\<close> of \<^verbatim>\<open>parseGitHubURL\<close>, whose \<^verbatim>\<open>catch\<close> clauses
  turn every error into a value.
\<close>

subsection \<open>C1: a truncated license is not looked up\<close>

text \<open>
  C1 says that a change that is not removed, whose license has 255 characters and is not
  valid SPDX, and that has a source URL, gets a lookup, and joins the licensed group only
  with the license the lookup returns. \<^verbatim>\<open>groupChanges\<close> does put such a change into
  \<^verbatim>\<open>ghChanges\<close>, but \<^verbatim>\<open>setGHLicenses\<close> returns every change whose license is not
  null as it is (lemma \<open>truncated_change_keeps_license\<close>, for every such change). On
  the sample below the URL parses, and the request for it would return Apache-2.0, which
  the policy allows; yet no request is sent, the change joins the licensed group with
  its truncated string, and that string is what \<open>spdxSatisfies\<close> is called on. The
  matcher throws on a string that is not valid SPDX, so the change ends in the unresolved
  bucket.
\<close>

theorem truncated_license_is_not_looked_up:
  "truncatedDGLicense sample_externals truncated_license \<and>
   parseGitHubURL sample_externals ''https://github.com/acme/widget'' =
     Some \<lparr>owner = ''acme'', repo = ''widget''\<rparr> \<and>
   fetchGHLicense sample_externals ''acme'' ''widget'' = Some ''Apache-2.0'' \<and>
   requests (groupChanges sample_externals [truncated_change]) = [] \<and>
   licensed (groupChanges sample_externals [truncated_change]) = [truncated_change] \<and>
   checks (getInvalidLicenseChanges sample_externals [truncated_change]
             \<lparr>allow = Some [''Apache-2.0''], deny = None\<rparr>) =
     [(truncated_license, ''Apache-2.0'')] \<and>
   unresolved (getInvalidLicenseChanges sample_externals [truncated_change]
                 \<lparr>allow = Some [''Apache-2.0''], deny = None\<rparr>) = [truncated_change]"
proof -
  have g: "groupChanges sample_externals [truncated_change] =
      \<lparr>licensed = [truncated_change], unlicensed_group = [], ghChanges = [truncated_change],
       requests = []\<rparr>"
    by (simp add: run_defs truncated_change_def truncated_sample)
  have s: "spdxSatisfies sample_externals truncated_license ''Apache-2.0'' = Inl SpdxError"
    by (rule sample_satisfies)
  have r: "getInvalidLicenseChanges sample_externals [truncated_change]
             \<lparr>allow = Some [''Apache-2.0''], deny = None\<rparr> =
      \<lparr>unlicensed = [], unresolved = [truncated_change], forbidden = [],
       validityCache = Map.empty,
       checks = [(truncated_license, ''Apache-2.0'')]\<rparr>"
    unfolding getInvalidLicenseChanges_def g
    by (simp add: evaluate_change_def evaluate_license_def try_policy_def s
                  truncated_license_facts truncated_change_def sample_change_def)
  show ?thesis
    by (simp add: truncated_sample sample_parse sample_fetch g r)
qed

subsection \<open>C2: the allow list, or else the deny list, decides what is forbidden\<close>

text \<open>
  C2: take a change of the licensed group whose license is not NOASSERTION. If the allow
  list is configured (whatever the deny list is) and the pass over it ends without a
  throw, the change is in the forbidden bucket exactly when its license satisfies no
  expression of the allow list. If the allow list is absent, the deny list is configured
  and the pass over it ends without a throw, the change is in the forbidden bucket
  exactly when its license satisfies some expression of the deny list. The pass stops at
  the first expression the license satisfies, so a malformed expression after that one
  is never checked and does not count as a throw.
\<close>

theorem policy_decides_forbidden:
  assumes "c \<in> set (licensed (groupChanges ext changes))" "license c = Some l"
    and "l \<noteq> ''NOASSERTION''"
  shows "(allow pol = Some allowed \<and> fst (find_satisfies ext l allowed) = Inr found \<longrightarrow>
            (c \<in> set (forbidden (getInvalidLicenseChanges ext changes pol)) \<longleftrightarrow>
             (\<forall>e \<in> set allowed. spdxSatisfies ext l e \<noteq> Inr True))) \<and>
         (allow pol = None \<and> deny pol = Some denied \<and>
          fst (find_satisfies ext l denied) = Inr found \<longrightarrow>
            (c \<in> set (forbidden (getInvalidLicenseChanges ext changes pol)) \<longleftrightarrow>
             (\<exists>e \<in> set denied. spdxSatisfies ext l e = Inr True)))"
proof (intro conjI impI)
  assume a: "allow pol = Some allowed \<and> fst (find_satisfies ext l allowed) = Inr found"
  then have "policy_verdict ext pol l = Inr (Some (found \<noteq> None))"
    by (simp add: policy_verdict_eq)
  moreover have "(found = None) = (\<forall>e \<in> set allowed. spdxSatisfies ext l e \<noteq> Inr True)"
    using a find_satisfies_found by blast
  ultimately show "c \<in> set (forbidden (getInvalidLicenseChanges ext changes pol)) \<longleftrightarrow>
             (\<forall>e \<in> set allowed. spdxSatisfies ext l e \<noteq> Inr True)"
    using forbidden_iff [OF assms, of pol] by auto
next
  assume a: "allow pol = None \<and> deny pol = Some denied \<and>
          fst (find_satisfies ext l denied) = Inr found"
  then have "policy_verdict ext pol l = Inr (Some (found = None))"
    by (simp add: policy_verdict_eq)
  moreover have "(found = None) = (\<forall>e \<in> set denied. spdxSatisfies ext l e \<noteq> Inr True)"
    using a find_satisfies_found by blast
  ultimately show "c \<in> set (forbidden (getInvalidLicenseChanges ext changes pol)) \<longleftrightarrow>
             (\<exists>e \<in> set denied. spdxSatisfies ext l e = Inr True)"
    using forbidden_iff [OF assms, of pol] by auto
qed

theorem policy_decides_forbidden_witness:
  "sample_change ''b'' added (Some ''GPL-3.0'') None
     \<in> set (forbidden (getInvalidLicenseChanges sample_externals sample_changes allow_MIT)) \<and>
   sample_change ''a'' added (Some ''MIT'') None
     \<notin> set (forbidden (getInvalidLicenseChanges sample_externals sample_changes allow_MIT)) \<and>
   sample_change ''b'' added (Some ''GPL-3.0'') None
     \<in> set (forbidden (getInvalidLicenseChanges sample_externals sample_changes deny_GPL)) \<and>
   sample_change ''a'' added (Some ''MIT'') None
     \<notin> set (forbidden (getInvalidLicenseChanges sample_externals sample_changes deny_GPL))"
proof -
  let ?a = "sample_change ''a'' added (Some ''MIT'') None"
  let ?b = "sample_change ''b'' added (Some ''GPL-3.0'') None"
  have a: "?a \<in> set (licensed (groupChanges sample_externals sample_changes))"
    "license ?a = Some ''MIT''" "''MIT'' \<noteq> ''NOASSERTION''"
    unfolding sample_grouping by (simp_all add: sample_changes_def sample_change_def)
  have b: "?b \<in> set (licensed (groupChanges sample_externals sample_changes))"
    "license ?b = Some ''GPL-3.0''" "''GPL-3.0'' \<noteq> ''NOASSERTION''"
    unfolding sample_grouping by (simp_all add: sample_changes_def sample_change_def)
  have pol: "allow allow_MIT = Some [''MIT'']" "allow deny_GPL = None"
    "deny deny_GPL = Some [''GPL-3.0'']"
    by (simp_all add: allow_MIT_def deny_GPL_def)
  have found: "fst (find_satisfies sample_externals ''MIT'' [''MIT'']) = Inr (Some ''MIT'')"
    "fst (find_satisfies sample_externals ''GPL-3.0'' [''MIT'']) = Inr None"
    "fst (find_satisfies sample_externals ''MIT'' [''GPL-3.0'']) = Inr None"
    "fst (find_satisfies sample_externals ''GPL-3.0'' [''GPL-3.0'']) = Inr (Some ''GPL-3.0'')"
    by (simp_all add: sample_satisfies)
  show ?thesis
    using policy_decides_forbidden [OF a, of allow_MIT "[''MIT'']" "Some ''MIT''"]
      policy_decides_forbidden [OF b, of allow_MIT "[''MIT'']" None]
      policy_decides_forbidden [OF a, of deny_GPL _ None "[''GPL-3.0'']"]
      policy_decides_forbidden [OF b, of deny_GPL _ "Some ''GPL-3.0''" "[''GPL-3.0'']"]
    by (simp add: pol found sample_satisfies)
qed

subsection \<open>C3: the buckets are disjoint\<close>

text \<open>
  C3: for every change list and every policy, no change is in two of the three buckets
  forbidden, unresolved and unlicensed.
\<close>

theorem buckets_disjoint:
  "set (forbidden (getInvalidLicenseChanges ext changes pol)) \<inter>
     set (unresolved (getInvalidLicenseChanges ext changes pol)) = {} \<and>
   set (forbidden (getInvalidLicenseChanges ext changes pol)) \<inter>
     set (unlicensed (getInvalidLicenseChanges ext changes pol)) = {} \<and>
   set (unresolved (getInvalidLicenseChanges ext changes pol)) \<inter>
     set (unlicensed (getInvalidLicenseChanges ext changes pol)) = {}"
proof -
  have "\<not> (violates ext pol c \<and> evaluation_throws ext pol c)" for c
    using throws_not_violates by blast
  moreover have "\<not> violates ext pol c" "\<not> evaluation_throws ext pol c"
    if "license c = None \<or> license c = Some ''NOASSERTION''" for c
    using that by (auto simp: violates_def evaluation_throws_def)
  ultimately show ?thesis
    using unlicensed_group_null [of _ ext changes]
    by (auto simp: run_forbidden run_unresolved run_unlicensed)
qed

theorem buckets_disjoint_witness:
  "set (forbidden (getInvalidLicenseChanges sample_externals sample_changes allow_MIT)) =
     {sample_change ''b'' added (Some ''GPL-3.0'') None,
      sample_change ''b2'' added (Some ''GPL-3.0'') None} \<and>
   set (unresolved (getInvalidLicenseChanges sample_externals sample_changes allow_MIT)) =
     {sample_change ''m'' added (Some ''not a license'') None,
      sample_change ''m2'' added (Some ''not a license'') None} \<and>
   set (unlicensed (getInvalidLicenseChanges sample_externals sample_changes allow_MIT)) =
     {sample_change ''n'' added (Some ''NOASSERTION'') None} \<and>
   set (forbidden (getInvalidLicenseChanges sample_externals sample_changes allow_MIT)) \<inter>
     set (unresolved (getInvalidLicenseChanges sample_externals sample_changes allow_MIT)) = {} \<and>
   set (forbidden (getInvalidLicenseChanges sample_externals sample_changes allow_MIT)) \<inter>
     set (unlicensed (getInvalidLicenseChanges sample_externals sample_changes allow_MIT)) = {} \<and>
   set (unresolved (getInvalidLicenseChanges sample_externals sample_changes allow_MIT)) \<inter>
     set (unlicensed (getInvalidLicenseChanges sample_externals sample_changes allow_MIT)) = {}"
  using buckets_disjoint [of sample_externals sample_changes allow_MIT]
  by (simp add: sample_run_allow)

subsection \<open>C4: NOASSERTION is unlicensed\<close>

text \<open>
  C4: take a change of the input that is not removed. If its license is NOASSERTION, or
  if it has no license and the lookup for its source URL returns NOASSERTION (then \<open>c'\<close>
  is the change with that license), it is in the unlicensed bucket, it is in neither the
  forbidden nor the unresolved bucket, and no call of \<open>spdxSatisfies\<close> in the run has
  NOASSERTION as its license, whatever the policy.
\<close>

theorem noassertion_is_unlicensed:
  assumes "c \<in> set changes" "change_type c \<noteq> removed"
    and "(license c = Some ''NOASSERTION'' \<and> c' = c) \<or>
         (license c = None \<and>
          (\<exists>url g. source_repository_url c = Some url \<and> parseGitHubURL ext url = Some g \<and>
             fetchGHLicense ext (owner g) (repo g) = Some ''NOASSERTION'') \<and>
          c' = c\<lparr>license := Some ''NOASSERTION''\<rparr>)"
  shows "c' \<in> set (unlicensed (getInvalidLicenseChanges ext changes pol)) \<and>
         c' \<notin> set (forbidden (getInvalidLicenseChanges ext changes pol)) \<and>
         c' \<notin> set (unresolved (getInvalidLicenseChanges ext changes pol)) \<and>
         (\<forall>e. (''NOASSERTION'', e) \<notin> set (checks (getInvalidLicenseChanges ext changes pol)))"
proof -
  have lic: "license c' = Some ''NOASSERTION''"
    using assms(3) by auto
  have "c' \<in> set (licensed (groupChanges ext changes))"
    using assms(3)
  proof
    assume a: "license c = Some ''NOASSERTION'' \<and> c' = c"
    then have "licensed_directly ext c"
      using assms(2) by (simp add: licensed_directly_def noassertion_not_truncated)
    with assms(1) a show ?thesis
      by (simp add: groupChanges_licensed)
  next
    assume a: "license c = None \<and>
          (\<exists>url g. source_repository_url c = Some url \<and> parseGitHubURL ext url = Some g \<and>
             fetchGHLicense ext (owner g) (repo g) = Some ''NOASSERTION'') \<and>
          c' = c\<lparr>license := Some ''NOASSERTION''\<rparr>"
    then obtain url g where u: "source_repository_url c = Some url"
      and p: "parseGitHubURL ext url = Some g"
      and f: "fetchGHLicense ext (owner g) (repo g) = Some ''NOASSERTION''"
      by blast
    have "fst (setGHLicense ext c) = c'"
      using a u p f by (simp add: setGHLicense_def)
    with now_licensed [of c changes url ext "''NOASSERTION''"] assms(1,2) a u lic
    show ?thesis by simp
  qed
  from noassertion_buckets [OF this lic] no_check_of_noassertion [of _ ext changes pol]
  show ?thesis by blast
qed

theorem noassertion_is_unlicensed_witness:
  "sample_change ''g'' added (Some ''NOASSERTION'') None
     \<in> set (unlicensed (getInvalidLicenseChanges sample_externals
                 [sample_change ''g'' added (Some ''NOASSERTION'') None,
                  sample_change ''e'' added None (Some ''https://github.com/acme/gadget'')]
                 \<lparr>allow = Some [''MIT''], deny = None\<rparr>)) \<and>
   sample_change ''e'' added (Some ''NOASSERTION'') (Some ''https://github.com/acme/gadget'')
     \<in> set (unlicensed (getInvalidLicenseChanges sample_externals
                 [sample_change ''g'' added (Some ''NOASSERTION'') None,
                  sample_change ''e'' added None (Some ''https://github.com/acme/gadget'')]
                 \<lparr>allow = Some [''MIT''], deny = None\<rparr>))"
proof -
  let ?g = "sample_change ''g'' added (Some ''NOASSERTION'') None"
  let ?e = "sample_change ''e'' added None (Some ''https://github.com/acme/gadget'')"
  let ?e' = "sample_change ''e'' added (Some ''NOASSERTION'') (Some ''https://github.com/acme/gadget'')"
  have g: "?g \<in> set [?g, ?e]" "change_type ?g \<noteq> removed"
    "license ?g = Some ''NOASSERTION'' \<and> ?g = ?g"
    by (simp_all add: sample_change_def)
  have e: "?e \<in> set [?g, ?e]" "change_type ?e \<noteq> removed"
    "license ?e = None \<and>
     (\<exists>url g. source_repository_url ?e = Some url \<and> parseGitHubURL sample_externals url = Some g \<and>
        fetchGHLicense sample_externals (owner g) (repo g) = Some ''NOASSERTION'') \<and>
     ?e' = ?e\<lparr>license := Some ''NOASSERTION''\<rparr>"
    by (simp_all add: sample_change_def sample_parse sample_fetch)
  show ?thesis
    using noassertion_is_unlicensed [of ?g "[?g, ?e]" ?g sample_externals
            "\<lparr>allow = Some [''MIT''], deny = None\<rparr>"]
          noassertion_is_unlicensed [of ?e "[?g, ?e]" ?e' sample_externals
            "\<lparr>allow = Some [''MIT''], deny = None\<rparr>"]
          g e
    by blast
qed

subsection \<open>C5: a removed change is in no bucket\<close>

text \<open>
  C5: for every policy, a change whose \<open>change_type\<close> is \<open>removed\<close> is in none of the
  buckets forbidden, unresolved and unlicensed.
\<close>

theorem removed_in_no_bucket:
  assumes "change_type c = removed"
  shows "c \<notin> set (forbidden (getInvalidLicenseChanges ext changes pol)) \<and>
         c \<notin> set (unresolved (getInvalidLicenseChanges ext changes pol)) \<and>
         c \<notin> set (unlicensed (getInvalidLicenseChanges ext changes pol))"
  using assms buckets_from_groups [of ext changes pol] grouped_not_removed [of c ext changes]
  by blast

theorem removed_in_no_bucket_witness:
  "change_type (sample_change ''c'' removed (Some ''GPL-3.0'') None) = removed \<and>
   sample_change ''c'' removed (Some ''GPL-3.0'') None
     \<notin> set (forbidden (getInvalidLicenseChanges sample_externals
                 [sample_change ''c'' removed (Some ''GPL-3.0'') None,
                  sample_change ''b'' added (Some ''GPL-3.0'') None]
                 \<lparr>allow = Some [''MIT''], deny = None\<rparr>)) \<and>
   sample_change ''c'' removed (Some ''GPL-3.0'') None
     \<notin> set (unresolved (getInvalidLicenseChanges sample_externals
                 [sample_change ''c'' removed (Some ''GPL-3.0'') None,
                  sample_change ''b'' added (Some ''GPL-3.0'') None]
                 \<lparr>allow = Some [''MIT''], deny = None\<rparr>)) \<and>
   sample_change ''c'' removed (Some ''GPL-3.0'') None
     \<notin> set (unlicensed (getInvalidLicenseChanges sample_externals
                 [sample_change ''c'' removed (Some ''GPL-3.0'') None,
                  sample_change ''b'' added (Some ''GPL-3.0'') None]
                 \<lparr>allow = Some [''MIT''], deny = None\<rparr>))"
  using removed_in_no_bucket [of "sample_change ''c'' removed (Some ''GPL-3.0'') None"
          sample_externals
          "[sample_change ''c'' removed (Some ''GPL-3.0'') None,
            sample_change ''b'' added (Some ''GPL-3.0'') None]"
          "\<lparr>allow = Some [''MIT''], deny = None\<rparr>"]
  by (simp add: sample_change_def)

subsection \<open>C6: one matching per license, and only results are cached\<close>

text \<open>
  C6, for a license string \<open>l\<close> in one run. When the \<^verbatim>\<open>try\<close> block does not throw
  for \<open>l\<close>, the checks made with \<open>l\<close> in the whole run are those of one pass of the
  block, or none: the matching is computed at most once, however many changes carry
  \<open>l\<close>. When the cache holds a Boolean for \<open>l\<close>, the block returns for \<open>l\<close> and that
  Boolean is what it stores: nothing is cached for a throw. When a check made with \<open>l\<close>
  throws, the cache holds nothing for \<open>l\<close> and the checks made with \<open>l\<close> are those
  of the block repeated once for every licensed change that carries \<open>l\<close>.
\<close>

theorem matching_once_per_license:
  "(fst (try_policy ext pol l Map.empty) = Inr cache \<longrightarrow>
      filter (\<lambda>k. fst k = l) (checks (getInvalidLicenseChanges ext changes pol)) = [] \<or>
      filter (\<lambda>k. fst k = l) (checks (getInvalidLicenseChanges ext changes pol)) =
        snd (try_policy ext pol l Map.empty)) \<and>
   (validityCache (getInvalidLicenseChanges ext changes pol) l = Some b \<longrightarrow>
      fst (try_policy ext pol l Map.empty) = Inr [l \<mapsto> b]) \<and>
   ((l, e) \<in> set (checks (getInvalidLicenseChanges ext changes pol)) \<and>
    spdxSatisfies ext l e = Inl err \<longrightarrow>
      validityCache (getInvalidLicenseChanges ext changes pol) l = None \<and>
      filter (\<lambda>k. fst k = l) (checks (getInvalidLicenseChanges ext changes pol)) =
        concat (replicate
          (length (filter (\<lambda>c. license c = Some l) (licensed (groupChanges ext changes))))
          (snd (try_policy ext pol l Map.empty))))"
proof -
  let ?r = "getInvalidLicenseChanges ext changes pol"
  let ?licensed = "licensed (groupChanges ext changes)"
  have once: "filter (\<lambda>k. fst k = l) (checks ?r) = [] \<or>
      filter (\<lambda>k. fst k = l) (checks ?r) = snd (try_policy ext pol l Map.empty)"
    if "fst (try_policy ext pol l Map.empty) = Inr cache"
  proof -
    from that have "\<not> isl (policy_verdict ext pol l)"
      by (simp add: policy_verdict_def)
    from attempts_once [OF this, of ?licensed]
    have "attempts ext pol ?licensed l = 0 \<or> attempts ext pol ?licensed l = 1"
      by arith
    then show ?thesis
      by (auto simp: run_checks policy_checks_def)
  qed
  have stored: "fst (try_policy ext pol l Map.empty) = Inr [l \<mapsto> b]"
    if "validityCache ?r l = Some b"
  proof -
    from that have "cached ext pol ?licensed l = Some b"
      by (simp add: run_cache)
    from cached_Some [OF this] have "policy_verdict ext pol l = Inr (Some b)"
      by simp
    then show ?thesis
      by (simp add: try_policy_eq)
  qed
  have again: "validityCache ?r l = None \<and>
      filter (\<lambda>k. fst k = l) (checks ?r) =
        concat (replicate (length (filter (\<lambda>c. license c = Some l) ?licensed))
                  (snd (try_policy ext pol l Map.empty)))"
    if "(l, e) \<in> set (checks ?r)" "spdxSatisfies ext l e = Inl err"
  proof -
    from thrown_check_in_run [OF that]
    have n: "l \<noteq> ''NOASSERTION''" and t: "isl (policy_verdict ext pol l)"
      by simp_all
    have "cached ext pol ?licensed l = None"
      using t by (auto simp: cached_def split: sum.splits)
    then show ?thesis
      by (simp add: run_cache run_checks attempts_thrown [OF t n] policy_checks_def)
  qed
  from once stored again show ?thesis
    by blast
qed

theorem matching_once_per_license_witness:
  "filter (\<lambda>k. fst k = ''GPL-3.0'')
     (checks (getInvalidLicenseChanges sample_externals sample_changes allow_MIT)) =
     [(''GPL-3.0'', ''MIT'')] \<and>
   fst (try_policy sample_externals allow_MIT ''GPL-3.0'' Map.empty) = Inr [''GPL-3.0'' \<mapsto> False] \<and>
   validityCache (getInvalidLicenseChanges sample_externals sample_changes allow_MIT)
     ''not a license'' = None \<and>
   filter (\<lambda>k. fst k = ''not a license'')
     (checks (getInvalidLicenseChanges sample_externals sample_changes allow_MIT)) =
     [(''not a license'', ''MIT''), (''not a license'', ''MIT'')]"
proof -
  let ?r = "getInvalidLicenseChanges sample_externals sample_changes allow_MIT"
  have ok: "fst (try_policy sample_externals allow_MIT ''GPL-3.0'' Map.empty) = Inr [''GPL-3.0'' \<mapsto> False]"
    and made: "snd (try_policy sample_externals allow_MIT ''GPL-3.0'' Map.empty) = [(''GPL-3.0'', ''MIT'')]"
    and again: "snd (try_policy sample_externals allow_MIT ''not a license'' Map.empty) =
        [(''not a license'', ''MIT'')]"
    by (simp_all add: try_policy_def allow_MIT_def sample_satisfies)
  have stored: "validityCache ?r ''GPL-3.0'' = Some False"
    and thrown: "(''not a license'', ''MIT'') \<in> set (checks ?r)"
    and carried: "length (filter (\<lambda>c. license c = Some ''not a license'')
        (licensed (groupChanges sample_externals sample_changes))) = 2"
    and nonempty: "filter (\<lambda>k. fst k = ''GPL-3.0'') (checks ?r) \<noteq> []"
    unfolding sample_run_allow sample_grouping
    by (simp_all add: sample_changes_def sample_change_def)
  from matching_once_per_license [of sample_externals allow_MIT "''GPL-3.0''"
          "[''GPL-3.0'' \<mapsto> False]" sample_changes False]
       matching_once_per_license [of sample_externals allow_MIT "''not a license''" _
          sample_changes _ "''MIT''" SpdxError]
       ok made again stored thrown carried nonempty sample_satisfies
  show ?thesis
    by (simp add: numeral_2_eq_2)
qed

subsection \<open>C7: a throwing check makes the change unresolved\<close>

text \<open>
  C7: take a change of the licensed group with license \<open>l\<close>. If a call of
  \<open>spdxSatisfies\<close> made in the run with \<open>l\<close> throws, the change is in the unresolved
  bucket, it is not in the forbidden bucket, and the cache holds no Boolean for \<open>l\<close>.
  The function returns its state all the same: the throw is caught inside the loop.
  For a license other than NOASSERTION, such a call is made whenever the \<^verbatim>\<open>try\<close> block
  throws for the license (lemma \<open>thrown_policy_is_checked\<close>); for NOASSERTION no call is
  ever made.
\<close>

theorem thrown_check_is_unresolved:
  assumes "c \<in> set (licensed (groupChanges ext changes))" "license c = Some l"
    and "(l, e) \<in> set (checks (getInvalidLicenseChanges ext changes pol))"
    and "spdxSatisfies ext l e = Inl err"
  shows "c \<in> set (unresolved (getInvalidLicenseChanges ext changes pol)) \<and>
         c \<notin> set (forbidden (getInvalidLicenseChanges ext changes pol)) \<and>
         validityCache (getInvalidLicenseChanges ext changes pol) l = None"
proof -
  from thrown_check_in_run [OF assms(3,4)]
  have n: "l \<noteq> ''NOASSERTION''" and t: "isl (policy_verdict ext pol l)"
    by simp_all
  have "cached ext pol (licensed (groupChanges ext changes)) l = None"
    using t by (auto simp: cached_def split: sum.splits)
  moreover have "policy_verdict ext pol l \<noteq> Inr (Some False)"
    using t by auto
  ultimately show ?thesis
    using unresolved_iff [OF assms(1,2) n, of pol] forbidden_iff [OF assms(1,2) n, of pol] t
    by (simp add: run_cache)
qed

theorem thrown_check_is_unresolved_witness:
  "sample_change ''m2'' added (Some ''not a license'') None
     \<in> set (unresolved (getInvalidLicenseChanges sample_externals sample_changes allow_MIT)) \<and>
   sample_change ''m2'' added (Some ''not a license'') None
     \<notin> set (forbidden (getInvalidLicenseChanges sample_externals sample_changes allow_MIT)) \<and>
   validityCache (getInvalidLicenseChanges sample_externals sample_changes allow_MIT)
     ''not a license'' = None"
proof -
  let ?m = "sample_change ''m2'' added (Some ''not a license'') None"
  have m: "?m \<in> set (licensed (groupChanges sample_externals sample_changes))"
    "license ?m = Some ''not a license''"
    unfolding sample_grouping by (simp_all add: sample_changes_def sample_change_def)
  have thrown: "(''not a license'', ''MIT'')
      \<in> set (checks (getInvalidLicenseChanges sample_externals sample_changes allow_MIT))"
    by (simp add: sample_run_allow)
  from thrown_check_is_unresolved [OF m thrown sample_satisfies(5)]
  show ?thesis .
qed

subsection \<open>C8: a failed resolution is no license\<close>




subsection \<open>C9: resolution changes the license only\<close>

text \<open>
  C9: every element that \<open>setGHLicenses\<close> returns is either the change at the same
  position of the batch, or that change with its license replaced by the result of the
  lookup for its source URL; in both cases the name, version, manifest, change type and
  source URL are those of the input change. The batch itself is a value and stays as it
  is.
\<close>

theorem setGHLicenses_changes_license_only:
  assumes "i < length changes"
  shows "length (fst (setGHLicenses ext changes)) = length changes \<and>
         (fst (setGHLicenses ext changes) ! i = changes ! i \<or>
          (\<exists>url g. license (changes ! i) = None \<and>
             source_repository_url (changes ! i) = Some url \<and>
             parseGitHubURL ext url = Some g \<and>
             fst (setGHLicenses ext changes) ! i =
               (changes ! i)\<lparr>license := fetchGHLicense ext (owner g) (repo g)\<rparr>)) \<and>
         name (fst (setGHLicenses ext changes) ! i) = name (changes ! i) \<and>
         version (fst (setGHLicenses ext changes) ! i) = version (changes ! i) \<and>
         manifest (fst (setGHLicenses ext changes) ! i) = manifest (changes ! i) \<and>
         change_type (fst (setGHLicenses ext changes) ! i) = change_type (changes ! i) \<and>
         source_repository_url (fst (setGHLicenses ext changes) ! i) =
           source_repository_url (changes ! i)"
proof -
  have nth: "fst (setGHLicenses ext changes) ! i = fst (setGHLicense ext (changes ! i))"
    using assms by (simp add: setGHLicenses_def)
  have len: "length (fst (setGHLicenses ext changes)) = length changes"
    by (simp add: setGHLicenses_def)
  from setGHLicense_cases [of ext "changes ! i"]
  have "fst (setGHLicense ext (changes ! i)) = changes ! i \<or>
        (\<exists>url g. license (changes ! i) = None \<and>
           source_repository_url (changes ! i) = Some url \<and>
           parseGitHubURL ext url = Some g \<and>
           fst (setGHLicense ext (changes ! i)) =
             (changes ! i)\<lparr>license := fetchGHLicense ext (owner g) (repo g)\<rparr>)"
    by fastforce
  then show ?thesis
    unfolding nth using len
    by (simp only: setGHLicense_frame setGHLicense_change_type simp_thms)
qed

theorem setGHLicenses_changes_license_only_witness:
  "(0::nat) < length [sample_change ''d'' added None (Some ''https://github.com/acme/widget'')] \<and>
   fst (setGHLicenses sample_externals
          [sample_change ''d'' added None (Some ''https://github.com/acme/widget'')]) ! 0 =
     sample_change ''d'' added (Some ''Apache-2.0'') (Some ''https://github.com/acme/widget'') \<and>
   name (fst (setGHLicenses sample_externals
          [sample_change ''d'' added None (Some ''https://github.com/acme/widget'')]) ! 0) = ''d''"
  using setGHLicenses_changes_license_only [of 0
          "[sample_change ''d'' added None (Some ''https://github.com/acme/widget'')]"
          sample_externals]
  by (simp add: setGHLicenses_def setGHLicense_def sample_parse sample_fetch sample_change_def)

subsection \<open>C10: a licensed change has a license\<close>

text \<open>
  C10: every change of the licensed group that \<open>groupChanges\<close> returns has a license
  that is not null. The loop of \<open>getInvalidLicenseChanges\<close> runs over exactly this list,
  so the branch of \<open>evaluate_change\<close> that skips a null license is never taken there.
\<close>

theorem licensed_group_has_license:
  "\<forall>c \<in> set (licensed (groupChanges ext changes)). license c \<noteq> None"
  using licensed_has_license [of _ ext changes] by auto

theorem licensed_group_has_license_witness:
  "sample_change ''a'' added (Some ''MIT'') None
     \<in> set (licensed (groupChanges sample_externals [sample_change ''a'' added (Some ''MIT'') None])) \<and>
   license (sample_change ''a'' added (Some ''MIT'') None) \<noteq> None"
  using licensed_group_has_license [of sample_externals "[sample_change ''a'' added (Some ''MIT'') None]"]
  by (simp add: run_defs truncatedDGLicense_def)

end
